theory Spec2Isabelle
  imports Main
begin

section \<open>JavaScript strings and numbers\<close>

text \<open>
  A JavaScript string is a sequence of UTF-16 code units. The model uses \<^typ>\<open>string\<close>
  and reads every \<^typ>\<open>char\<close> as one code unit in the range 0..255 (Latin-1); code units
  above 255 are outside the model.
\<close>

text \<open>
  \<^verbatim>\<open>String.prototype.trim\<close> strips WhiteSpace and LineTerminator code points from both
  ends. In the range 0..255 these are TAB, LF, VT, FF, CR, SP and NBSP.
\<close>

definition is_ws :: "char \<Rightarrow> bool" where
  "is_ws c = (of_char c \<in> {9, 10, 11, 12, 13, 32, 160 :: nat})"

definition trim :: "string \<Rightarrow> string" where
  "trim s = rev (dropWhile is_ws (rev (dropWhile is_ws s)))"

text \<open>\<^verbatim>\<open>s.startsWith(p)\<close> and \<^verbatim>\<open>s.includes(p)\<close>.\<close>

fun startsWith :: "string \<Rightarrow> string \<Rightarrow> bool" where
  "startsWith s [] = True"
| "startsWith [] (p # ps) = False"
| "startsWith (c # cs) (p # ps) = (c = p \<and> startsWith cs ps)"

fun includes_js :: "string \<Rightarrow> string \<Rightarrow> bool" where
  "includes_js [] p = startsWith [] p"
| "includes_js (c # cs) p = (startsWith (c # cs) p \<or> includes_js cs p)"

text \<open>
  \<^verbatim>\<open>text.replace(/<[^>]*>?/gm, '')\<close>: every match starts at a \<^verbatim>\<open><\<close>, consumes greedily
  every code unit that is not \<^verbatim>\<open>>\<close> (line breaks included: a negated class matches them)
  and then one \<^verbatim>\<open>>\<close> when there is one. The flag of \<open>replace_tags\<close> says whether the scan
  is inside a match. A match that finds no \<^verbatim>\<open>>\<close> runs to the end of the string.
\<close>

fun replace_tags :: "bool \<Rightarrow> string \<Rightarrow> string" where
  "replace_tags inside [] = []"
| "replace_tags False (c # cs) =
     (if c = CHR ''<'' then replace_tags True cs else c # replace_tags False cs)"
| "replace_tags True (c # cs) =
     (if c = CHR ''>'' then replace_tags False cs else replace_tags True cs)"

text \<open>\<^verbatim>\<open>xs.join(sep)\<close> on a list of strings.\<close>

fun join :: "string list \<Rightarrow> string \<Rightarrow> string" where
  "join [] sep = []"
| "join [x] sep = x"
| "join (x # y # ys) sep = x @ sep @ join (y # ys) sep"

text \<open>
  Number to string, for integers: decimal digits, with a leading minus sign. This is the
  text of a number up to \<^verbatim>\<open>Number.MAX_SAFE_INTEGER\<close> in absolute value (a larger number is
  rounded, and printed with an exponent from 1e21), and of every BigInt.
\<close>

definition digit :: "nat \<Rightarrow> char" where
  "digit d = ''0123456789abcdef'' ! d"

fun dec_nat :: "nat \<Rightarrow> string" where
  "dec_nat n = (if n < 10 then [digit n] else dec_nat (n div 10) @ [digit (n mod 10)])"

declare dec_nat.simps [simp del]

definition dec_int :: "int \<Rightarrow> string" where
  "dec_int i = (if i < 0 then CHR ''-'' # dec_nat (nat (- i)) else dec_nat (nat i))"

section \<open>JavaScript values\<close>

text \<open>
  \<open>jsval\<close> is a value a tool handler can hand to the serializer: the primitives, arrays and
  plain objects (an association list in property order). Numbers are the integers (in the
  range that a number holds exactly and prints in decimal digits) and the three non-finite
  values; fractional numbers, functions, symbols and cyclic structures are outside the model. \<open>json\<close> is a value \<^verbatim>\<open>JSON.parse\<close> returns.
\<close>

datatype jsnum = Fin int | NaN | PosInfinity | NegInfinity

datatype jsval =
    JUndefined
  | JNull
  | JBool bool
  | JNum jsnum
  | JBigInt int
  | JStr string
  | JArr "jsval list"
  | JObj "(string \<times> jsval) list"

datatype json =
    PNull
  | PBool bool
  | PNum int
  | PStr string
  | PArr "json list"
  | PObj "(string \<times> json) list"

text \<open>Every parsed value is a JavaScript value.\<close>

fun of_json :: "json \<Rightarrow> jsval" where
  "of_json PNull = JNull"
| "of_json (PBool b) = JBool b"
| "of_json (PNum i) = JNum (Fin i)"
| "of_json (PStr s) = JStr s"
| "of_json (PArr xs) = JArr (map of_json xs)"
| "of_json (PObj kvs) = JObj (map (\<lambda>p. (fst p, of_json (snd p))) kvs)"

text \<open>ToBoolean, on a value and on the result of a property read (\<open>None\<close> is undefined).\<close>

fun truthy :: "jsval \<Rightarrow> bool" where
  "truthy JUndefined = False"
| "truthy JNull = False"
| "truthy (JBool b) = b"
| "truthy (JNum n) = (n \<noteq> Fin 0 \<and> n \<noteq> NaN)"
| "truthy (JBigInt i) = (i \<noteq> 0)"
| "truthy (JStr s) = (s \<noteq> [])"
| "truthy (JArr xs) = True"
| "truthy (JObj kvs) = True"

fun truthy_opt :: "json option \<Rightarrow> bool" where
  "truthy_opt None = False"
| "truthy_opt (Some v) = truthy (of_json v)"

text \<open>\<^verbatim>\<open>a || b\<close>: the left operand when it is truthy, else the right one.\<close>

definition or_js :: "json option \<Rightarrow> json option \<Rightarrow> json option" where
  "or_js a b = (if truthy_opt a then a else b)"

text \<open>
  A property read \<^verbatim>\<open>v[k]\<close> on a value that is neither null nor undefined, for a key that
  is no built-in property (the program reads only data keys such as \<^verbatim>\<open>name\<close> or
  \<^verbatim>\<open>adtcore:name\<close>): the own property of an object, undefined on anything else.
\<close>

fun get :: "json \<Rightarrow> string \<Rightarrow> json option" where
  "get (PObj kvs) k = map_of kvs k"
| "get v k = None"

text \<open>Optional chaining \<^verbatim>\<open>v?.[k]\<close>: undefined when \<open>v\<close> is null or undefined.\<close>

fun opt_get :: "json option \<Rightarrow> string \<Rightarrow> json option" where
  "opt_get None k = None"
| "opt_get (Some PNull) k = None"
| "opt_get (Some v) k = get v k"

section \<open>Errors\<close>

text \<open>
  An instance of \<^verbatim>\<open>Error\<close>: an \<^verbatim>\<open>McpError\<close> with the \<^verbatim>\<open>code\<close> and \<^verbatim>\<open>message\<close> fields the
  program reads, or another error with its message. A thrown value is such an instance or
  any other value.
\<close>

datatype error =
    McpError int string
  | TypeError string
  | SyntaxError string
  | Error string

fun message :: "error \<Rightarrow> string" where
  "message (McpError c m) = m"
| "message (TypeError m) = m"
| "message (SyntaxError m) = m"
| "message (Error m) = m"


section \<open>ToString\<close>

text \<open>
  ToString, as a template literal and \<^verbatim>\<open>String(v)\<close> apply it; \<open>Inl\<close> is a raise. An object
  is converted by its \<^verbatim>\<open>toString\<close> method: the inherited one gives \<^verbatim>\<open>[object Object]\<close>, and
  an own property \<^verbatim>\<open>toString\<close> hides it. A value of the model is never callable, so the
  conversion then falls back to \<^verbatim>\<open>valueOf\<close>, which gives no primitive either, and raises a
  TypeError (with the message of V8). An array joins its elements with a comma, from left
  to right, null and undefined elements as the empty string.
\<close>

fun to_string :: "jsval \<Rightarrow> error + string"
  and to_strings :: "jsval list \<Rightarrow> error + string list"
where
  "to_string JUndefined = Inr ''undefined''"
| "to_string JNull = Inr ''null''"
| "to_string (JBool b) = Inr (if b then ''true'' else ''false'')"
| "to_string (JNum n) =
     Inr (case n of Fin i \<Rightarrow> dec_int i | NaN \<Rightarrow> ''NaN'' | PosInfinity \<Rightarrow> ''Infinity''
          | NegInfinity \<Rightarrow> ''-Infinity'')"
| "to_string (JBigInt i) = Inr (dec_int i)"
| "to_string (JStr s) = Inr s"
| "to_string (JArr xs) =
     (case to_strings xs of Inl e \<Rightarrow> Inl e | Inr ss \<Rightarrow> Inr (join ss '',''))"
| "to_string (JObj kvs) =
     (if map_of kvs ''toString'' \<noteq> None
      then Inl (TypeError ''Cannot convert object to primitive value'')
      else Inr ''[object Object]'')"
| "to_strings [] = Inr []"
| "to_strings (x # xs) =
     (case (if x = JNull \<or> x = JUndefined then Inr [] else to_string x) of
        Inl e \<Rightarrow> Inl e
      | Inr s \<Rightarrow> (case to_strings xs of Inl e \<Rightarrow> Inl e | Inr ss \<Rightarrow> Inr (s # ss)))"

fun to_string_opt :: "json option \<Rightarrow> error + string" where
  "to_string_opt None = Inr ''undefined''"
| "to_string_opt (Some v) = to_string (of_json v)"

text \<open>
  A template literal: its parts are literal texts (\<open>Inl\<close>) and interpolated values (\<open>Inr\<close>),
  converted from left to right; the first conversion that raises ends the evaluation.
\<close>

fun template :: "(string + json option) list \<Rightarrow> error + string" where
  "template [] = Inr []"
| "template (Inl s # parts) =
     (case template parts of Inl e \<Rightarrow> Inl e | Inr r \<Rightarrow> Inr (s @ r))"
| "template (Inr v # parts) =
     (case to_string_opt v of
        Inl e \<Rightarrow> Inl e
      | Inr s \<Rightarrow> (case template parts of Inl e \<Rightarrow> Inl e | Inr r \<Rightarrow> Inr (s @ r)))"

section \<open>The redaction: JSON.parse (JSON.stringify (result, replacer))\<close>

definition blackList :: "string list" where
  "blackList = [''links'', ''etag'', ''annex'', ''changed_by'', ''created_by'', ''changed_at'',
     ''parent_uri'']"

text \<open>
  The replacer of \<^verbatim>\<open>serializeResult\<close>:
  \<^verbatim>\<open>(key, value) => { if (blackList.includes(key)) return undefined;
      if (typeof value === 'bigint') return value.toString(); return value; }\<close>
\<close>

definition replacer :: "string \<Rightarrow> jsval \<Rightarrow> jsval" where
  "replacer key value =
     (if key \<in> set blackList then JUndefined
      else case value of JBigInt i \<Rightarrow> JStr (dec_int i) | _ \<Rightarrow> value)"

text \<open>
  \<^verbatim>\<open>JSON.stringify\<close> with the replacer, followed by \<^verbatim>\<open>JSON.parse\<close>, as one walk over the
  value. \<open>ser key value\<close> is SerializeJSONProperty: the replacer is called with the key and
  the value, and what it returns is serialized; \<open>None\<close> is the undefined result, which
  drops a property from an object (\<open>ser_obj\<close>) and is written as null in an array
  (\<open>ser_arr\<close>, whose keys are the decimal indices). A non-finite number is written as null,
  and a BigInt that reaches the serialization raises a TypeError.
\<close>

function ser :: "string \<Rightarrow> jsval \<Rightarrow> error + json option"
  and ser_arr :: "nat \<Rightarrow> jsval list \<Rightarrow> error + json list"
  and ser_obj :: "(string \<times> jsval) list \<Rightarrow> error + (string \<times> json) list"
where
  "ser key value =
     (case replacer key value of
        JUndefined \<Rightarrow> Inr None
      | JNull \<Rightarrow> Inr (Some PNull)
      | JBool b \<Rightarrow> Inr (Some (PBool b))
      | JNum n \<Rightarrow> Inr (Some (case n of Fin i \<Rightarrow> PNum i | _ \<Rightarrow> PNull))
      | JBigInt i \<Rightarrow> Inl (TypeError ''Do not know how to serialize a BigInt'')
      | JStr s \<Rightarrow> Inr (Some (PStr s))
      | JArr xs \<Rightarrow>
          (case ser_arr 0 xs of Inl e \<Rightarrow> Inl e | Inr ys \<Rightarrow> Inr (Some (PArr ys)))
      | JObj kvs \<Rightarrow>
          (case ser_obj kvs of Inl e \<Rightarrow> Inl e | Inr ps \<Rightarrow> Inr (Some (PObj ps))))"
| "ser_arr i [] = Inr []"
| "ser_arr i (x # xs) =
     (case ser (dec_nat i) x of
        Inl e \<Rightarrow> Inl e
      | Inr r \<Rightarrow>
          (case ser_arr (Suc i) xs of
             Inl e \<Rightarrow> Inl e
           | Inr ys \<Rightarrow> Inr ((case r of None \<Rightarrow> PNull | Some y \<Rightarrow> y) # ys)))"
| "ser_obj [] = Inr []"
| "ser_obj (p # kvs) =
     (case ser (fst p) (snd p) of
        Inl e \<Rightarrow> Inl e
      | Inr r \<Rightarrow>
          (case ser_obj kvs of
             Inl e \<Rightarrow> Inl e
           | Inr ps \<Rightarrow> Inr ((case r of None \<Rightarrow> [] | Some y \<Rightarrow> [(fst p, y)]) @ ps)))"
  by pat_completeness auto

termination
  by (relation "measure (\<lambda>a. case a of
          Inl (k, v) \<Rightarrow> size v
        | Inr (Inl (i, xs)) \<Rightarrow> size_list size xs
        | Inr (Inr kvs) \<Rightarrow> size_list (size_prod (\<lambda>k. 0) size) kvs)")
     (auto simp: replacer_def split: if_splits jsval.splits)

declare ser.simps [simp del]

text \<open>
  \<^verbatim>\<open>const clean = JSON.parse(JSON.stringify(result, replacer))\<close>. The walk starts at the
  root with the empty key. When the root serializes to undefined, \<^verbatim>\<open>JSON.parse(undefined)\<close>
  raises a SyntaxError.
\<close>

definition clean :: "jsval \<Rightarrow> error + json" where
  \<open>clean result =
     (case ser [] result of
        Inl e \<Rightarrow> Inl e
      | Inr None \<Rightarrow> Inl (SyntaxError ''"undefined" is not valid JSON'')
      | Inr (Some c) \<Rightarrow> Inr c)\<close>

section \<open>JSON.stringify without a replacer\<close>

text \<open>
  QuoteJSONString: the double quote, the backslash and the control characters below
  0x20 are escaped, every other code unit of the range stands for itself.
\<close>

definition escape_char :: "char \<Rightarrow> string" where
  "escape_char c =
     (if c = CHR 0x08 then [CHR 0x5C, CHR ''b'']
      else if c = CHR 0x09 then [CHR 0x5C, CHR ''t'']
      else if c = CHR 0x0A then [CHR 0x5C, CHR ''n'']
      else if c = CHR 0x0C then [CHR 0x5C, CHR ''f'']
      else if c = CHR 0x0D then [CHR 0x5C, CHR ''r'']
      else if c = CHR 0x22 then [CHR 0x5C, CHR 0x22]
      else if c = CHR 0x5C then [CHR 0x5C, CHR 0x5C]
      else if (of_char c :: nat) < 32
        then [CHR 0x5C, CHR ''u'', CHR ''0'', CHR ''0'',
              digit (of_char c div 16), digit (of_char c mod 16)]
      else [c])"

definition quote :: "string \<Rightarrow> string" where
  "quote s = CHR 0x22 # concat (map escape_char s) @ [CHR 0x22]"

text \<open>
  \<^verbatim>\<open>JSON.stringify(value, null, gap)\<close> on a parsed value, at the current indentation
  (SerializeJSONProperty, SerializeJSONArray and SerializeJSONObject). With the empty gap
  the text has no line breaks; otherwise every element and member stands on a line of its
  own, indented by one more gap, and a member has a space after its colon.
\<close>

fun stringify :: "string \<Rightarrow> string \<Rightarrow> json \<Rightarrow> string"
  and stringify_elems :: "string \<Rightarrow> string \<Rightarrow> json list \<Rightarrow> string list"
  and stringify_members :: "string \<Rightarrow> string \<Rightarrow> (string \<times> json) list \<Rightarrow> string list"
where
  "stringify gap indent PNull = ''null''"
| "stringify gap indent (PBool b) = (if b then ''true'' else ''false'')"
| "stringify gap indent (PNum i) = dec_int i"
| "stringify gap indent (PStr s) = quote s"
| "stringify gap indent (PArr xs) =
     (if xs = [] then ''[]''
      else if gap = [] then ''['' @ join (stringify_elems gap (indent @ gap) xs) '','' @ '']''
      else ''['' @ [CHR 0x0A] @ (indent @ gap)
             @ join (stringify_elems gap (indent @ gap) xs) ('','' @ [CHR 0x0A] @ (indent @ gap))
             @ [CHR 0x0A] @ indent @ '']'')"
| "stringify gap indent (PObj kvs) =
     (if kvs = [] then ''{}''
      else if gap = [] then ''{'' @ join (stringify_members gap (indent @ gap) kvs) '','' @ ''}''
      else ''{'' @ [CHR 0x0A] @ (indent @ gap)
             @ join (stringify_members gap (indent @ gap) kvs) ('','' @ [CHR 0x0A] @ (indent @ gap))
             @ [CHR 0x0A] @ indent @ ''}'')"
| "stringify_elems gap indent [] = []"
| "stringify_elems gap indent (x # xs) = stringify gap indent x # stringify_elems gap indent xs"
| "stringify_members gap indent [] = []"
| "stringify_members gap indent (p # kvs) =
     (quote (fst p) @ '':'' @ (if gap = [] then [] else '' '') @ stringify gap indent (snd p))
       # stringify_members gap indent kvs"

section \<open>The result serializer\<close>

text \<open>The result of a tool call: \<^verbatim>\<open>{ content: [{ type: 'text', text }], isError? }\<close>.\<close>

record content_item =
  type' :: string
  text' :: string

record presented =
  content :: "content_item list"
  isError :: "bool option"

definition text_result :: "string \<Rightarrow> presented" where
  "text_result t = \<lparr>content = [\<lparr>type' = ''text'', text' = t\<rparr>], isError = None\<rparr>"

definition error_result :: "string \<Rightarrow> presented" where
  "error_result t = \<lparr>content = [\<lparr>type' = ''text'', text' = t\<rparr>], isError = Some True\<rparr>"

text \<open>
  The callback of \<^verbatim>\<open>clean.slice(0, 50).map\<close>: reading a property of a null item raises a
  TypeError (with the message of V8); any other item renders as one line, unless the
  conversion of its name, type or description to a string raises.
\<close>

definition item_line :: "json \<Rightarrow> error + string" where
  "item_line item =
     (if item = PNull
      then Inl (TypeError ''Cannot read properties of null (reading 'name')'')
      else
        let name = or_js (or_js (get item ''name'') (get item ''ObjectName'')) (Some (PStr []));
            type = or_js (or_js (get item ''type'') (get item ''ObjectType'')) (Some (PStr []));
            desc = or_js (get item ''description'') (Some (PStr []))
        in template [Inl ''- '', Inr name, Inl '' ('', Inr type, Inl '') '', Inr desc])"

text \<open>\<^verbatim>\<open>xs.map(f)\<close> for a callback that may raise: the first raise ends the loop.\<close>

fun map_js :: "('a \<Rightarrow> error + 'b) \<Rightarrow> 'a list \<Rightarrow> error + 'b list" where
  "map_js f [] = Inr []"
| "map_js f (x # xs) =
     (case f x of
        Inl e \<Rightarrow> Inl e
      | Inr y \<Rightarrow> (case map_js f xs of Inl e \<Rightarrow> Inl e | Inr ys \<Rightarrow> Inr (y # ys)))"

text \<open>
  The computation of \<^verbatim>\<open>finalOutput\<close> from \<^verbatim>\<open>clean\<close>: a list of at most 50 item lines with a
  summary line for the rest when \<^verbatim>\<open>clean\<close> is an array, indented JSON otherwise.
\<close>

definition finalOutput :: "json \<Rightarrow> error + string" where
  "finalOutput c =
     (case c of
        PArr items \<Rightarrow>
          (if length items = 0 then Inr ''Empty list''
           else case map_js item_line (take 50 items) of
             Inl e \<Rightarrow> Inl e
           | Inr lines \<Rightarrow>
               Inr (join lines [CHR 0x0A]
                    @ (if length items > 50
                       then [CHR 0x0A, CHR 0x0A] @ ''...and '' @ dec_nat (length items - 50)
                            @ '' more objects.''
                       else [])))
      | _ \<Rightarrow> Inr (stringify ''  '' [] c))"

text \<open>The body of the \<^verbatim>\<open>try\<close> block of \<^verbatim>\<open>serializeResult\<close>; \<open>Inl\<close> is a raise.\<close>

definition serializeResult_try :: "jsval \<Rightarrow> error + presented" where
  "serializeResult_try result =
     (if \<not> truthy result then Inr (text_result ''No data returned from SAP'')
      else case result of
        JStr s \<Rightarrow>
          (let text = trim s;
               text = (if startsWith text ''<?xml'' \<or> includes_js text ''<adt:''
                       then trim (replace_tags False text) else text)
           in Inr (text_result text))
      | _ \<Rightarrow>
          (case clean result of
             Inl e \<Rightarrow> Inl e
           | Inr c \<Rightarrow>
               (case finalOutput c of Inl e \<Rightarrow> Inl e | Inr t \<Rightarrow> Inr (text_result t))))"

text \<open>
  \<^verbatim>\<open>serializeResult\<close> with its \<^verbatim>\<open>catch\<close>: a raise becomes an error text. Whatever the
  \<^verbatim>\<open>try\<close> block raises is an instance of \<^verbatim>\<open>Error\<close>, so the text is made of its message.
\<close>

definition serializeResult :: "jsval \<Rightarrow> presented" where
  "serializeResult result =
     (case serializeResult_try result of
        Inl error \<Rightarrow> error_result (''Error: '' @ message error)
      | Inr r \<Rightarrow> r)"

section \<open>The error projector and the tool boundary\<close>



section \<open>Transformers of the object handler\<close>

text \<open>
  \<^verbatim>\<open>handleGetObjectPath\<close> (ObjectHandler.ts), applied to the \<^verbatim>\<open>data\<close> of the response.
  \<open>root\<close> is the chain \<^verbatim>\<open>data['class:abapClass'] || data['adtcore:object'] ||
  data['program:abapProgram'] || data['table:abapTable']\<close>.
\<close>

definition root :: "json \<Rightarrow> json option" where
  "root data =
     or_js (or_js (or_js (get data ''class:abapClass'') (get data ''adtcore:object''))
                  (get data ''program:abapProgram''))
           (get data ''table:abapTable'')"

definition handleGetObjectPath :: "json \<Rightarrow> error + jsval" where
  "handleGetObjectPath data =
     (if data = PNull
      then Inl (TypeError ''Cannot read properties of null (reading 'class:abapClass')'')
      else
        let attrs = or_js (opt_get (root data) ''_attributes'') (Some (PObj []));
            package =
              or_js (opt_get (opt_get (opt_get (root data) ''adtcore:packageRef'') ''_attributes'')
                       ''adtcore:name'')
                    (Some (PStr ''TMP''))
        in case template [Inr package, Inl '' > '', Inr (opt_get attrs ''adtcore:name'')] of
             Inl e \<Rightarrow> Inl e
           | Inr path \<Rightarrow> Inr (JObj [(''path'', JStr path)]))"

text \<open>
  The source URL of \<^verbatim>\<open>handleGetObjectSourceCode\<close> (both versions of the handler), and the
  guard \<^verbatim>\<open>if (!args?.objectUrl) throw ...\<close> that ObjectHandler.ts puts before it.
\<close>

definition sourceUrl :: "string \<Rightarrow> string" where
  "sourceUrl objectUrl =
     (if includes_js objectUrl ''/source/main'' then objectUrl
      else objectUrl @ ''/source/main'')"

definition sourceUrl_guarded :: "string \<Rightarrow> string option" where
  "sourceUrl_guarded objectUrl = (if objectUrl = [] then None else Some (sourceUrl objectUrl))"

text \<open>
  The search transformer of \<^verbatim>\<open>handleGetObjects\<close> (the version built on the client library),
  applied to the \<^verbatim>\<open>results\<close> of the search. \<open>Inl\<close> is a raise inside the \<^verbatim>\<open>try\<close> block, which
  the handler rethrows as an \<^verbatim>\<open>McpError\<close>.
\<close>

definition search_line :: "json \<Rightarrow> error + string" where
  "search_line item =
     (if item = PNull
      then Inl (TypeError ''Cannot read properties of null (reading 'adtcore:name')'')
      else
        let name = or_js (get item ''adtcore:name'') (get item ''name'');
            type = or_js (get item ''adtcore:type'') (get item ''type'');
            desc = or_js (get item ''adtcore:description'') (Some (PStr []));
            uri = or_js (get item ''adtcore:uri'') (get item ''uri'')
        in template [Inl ''- '', Inr name, Inl '' ('', Inr type, Inl '') '', Inr desc,
                     Inl [CHR 0x0A], Inl ''  URL: '', Inr uri])"

definition handleGetObjects :: "json \<Rightarrow> error + string" where
  "handleGetObjects results =
     (if \<not> truthy (of_json results) \<or> results = PArr [] \<or> get results ''length'' = Some (PNum 0)
      then Inr ''No objects found.''
      else case results of
        PArr items \<Rightarrow>
          (case map_js search_line items of
             Inl e \<Rightarrow> Inl e
           | Inr lines \<Rightarrow> Inr (join lines [CHR 0x0A]))
      | _ \<Rightarrow> Inl (TypeError ''results.map is not a function''))"

section \<open>Predicates used in the statements\<close>

text \<open>A text has a tag span when a \<^verbatim>\<open><\<close> is followed, anywhere later, by a \<^verbatim>\<open>>\<close>.\<close>

fun has_tag_span :: "string \<Rightarrow> bool" where
  "has_tag_span [] = False"
| "has_tag_span (c # cs) = ((c = CHR ''<'' \<and> CHR ''>'' \<in> set cs) \<or> has_tag_span cs)"

text \<open>The field names of a parsed value, at every nesting depth.\<close>

fun field_names :: "json \<Rightarrow> string list"
  and field_names_list :: "json list \<Rightarrow> string list"
  and field_names_members :: "(string \<times> json) list \<Rightarrow> string list"
where
  "field_names PNull = []"
| "field_names (PBool b) = []"
| "field_names (PNum i) = []"
| "field_names (PStr s) = []"
| "field_names (PArr xs) = field_names_list xs"
| "field_names (PObj kvs) = field_names_members kvs"
| "field_names_list [] = []"
| "field_names_list (x # xs) = field_names x @ field_names_list xs"
| "field_names_members [] = []"
| "field_names_members (p # kvs) = fst p # field_names (snd p) @ field_names_members kvs"

text \<open>
  The values that the redaction writes as null inside an array: null, undefined and the
  non-finite numbers.
\<close>

fun serializes_as_null :: "jsval \<Rightarrow> bool" where
  "serializes_as_null JUndefined = True"
| "serializes_as_null JNull = True"
| "serializes_as_null (JNum n) = (case n of Fin i \<Rightarrow> False | _ \<Rightarrow> True)"
| "serializes_as_null v = False"

text \<open>
  The integers that a number holds exactly, and prints digit by digit:
  \<^verbatim>\<open>Number.MAX_SAFE_INTEGER\<close> is \<open>2 ^ 53 - 1\<close>.
\<close>

definition safe_integer :: "int \<Rightarrow> bool" where
  "safe_integer i = (\<bar>i\<bar> \<le> 9007199254740991)"

text \<open>
  A value that a template literal prints without raising and as the model says: no
  object with a \<^verbatim>\<open>toString\<close> property of its own, no number outside the safe integers,
  also inside arrays.
\<close>

fun prints_plainly :: "jsval \<Rightarrow> bool"
  and prints_plainly_list :: "jsval list \<Rightarrow> bool"
where
  "prints_plainly (JNum n) = (case n of Fin i \<Rightarrow> safe_integer i | _ \<Rightarrow> True)"
| "prints_plainly (JArr xs) = prints_plainly_list xs"
| "prints_plainly (JObj kvs) = (map_of kvs ''toString'' = None)"
| "prints_plainly JUndefined = True"
| "prints_plainly JNull = True"
| "prints_plainly (JBool b) = True"
| "prints_plainly (JBigInt i) = True"
| "prints_plainly (JStr s) = True"
| "prints_plainly_list [] = True"
| "prints_plainly_list (x # xs) = (prints_plainly x \<and> prints_plainly_list xs)"

text \<open>
  The fields an item line shows, and the entries of a sequence that render as an item
  line: an entry that the redaction does not write as null, and whose shown fields print
  plainly when it is a mapping.
\<close>

definition shown_fields :: "string list" where
  "shown_fields = [''name'', ''ObjectName'', ''type'', ''ObjectType'', ''description'']"

fun renders :: "jsval \<Rightarrow> bool" where
  "renders (JObj kvs) = list_all (\<lambda>p. fst p \<in> set shown_fields \<longrightarrow> prints_plainly (snd p)) kvs"
| "renders v = (\<not> serializes_as_null v)"

text \<open>
  The root resolver as the specification words it: the value of the first candidate key
  that is present in the response.
\<close>

definition root_candidates :: "string list" where
  "root_candidates = [''class:abapClass'', ''adtcore:object'', ''program:abapProgram'',
     ''table:abapTable'']"

definition first_present :: "json \<Rightarrow> json option" where
  "first_present data =
     (case filter (\<lambda>k. get data k \<noteq> None) root_candidates of
        [] \<Rightarrow> None
      | k # ks \<Rightarrow> get data k)"

section \<open>Strings\<close>

lemma startsWith_append: "startsWith (p @ r) p"
  by (induction p) auto

lemma startsWith_iff: "startsWith s p \<longleftrightarrow> (\<exists>r. s = p @ r)"
  by (induction s p rule: startsWith.induct) auto

lemma includes_js_self: "includes_js p p"
  using startsWith_append [of p "[]"] by (cases p) auto

lemma includes_js_append: "includes_js (s @ p) p"
  by (induction s) (auto simp: includes_js_self)

lemma has_tag_span_lt: "has_tag_span t \<Longrightarrow> CHR ''<'' \<in> set t"
  by (induction t) auto

text \<open>\<open>has_tag_span\<close> says what it should: the text is \<open>a < b > c\<close> for some \<open>a\<close>, \<open>b\<close>, \<open>c\<close>.\<close>

lemma has_tag_span_iff:
  "has_tag_span t \<longleftrightarrow> (\<exists>a b c. t = a @ [CHR ''<''] @ b @ [CHR ''>''] @ c)"
proof (induction t)
  case Nil
  then show ?case by simp
next
  case (Cons x t)
  show ?case
  proof
    assume "has_tag_span (x # t)"
    then consider "x = CHR ''<''" "CHR ''>'' \<in> set t" | "has_tag_span t" by auto
    then show "\<exists>a b c. x # t = a @ [CHR ''<''] @ b @ [CHR ''>''] @ c"
    proof cases
      case 1
      then obtain b c where "t = b @ CHR ''>'' # c" by (auto simp: in_set_conv_decomp)
      with 1 have "x # t = [] @ [CHR ''<''] @ b @ [CHR ''>''] @ c" by simp
      then show ?thesis by blast
    next
      case 2
      with Cons obtain a b c where "t = a @ [CHR ''<''] @ b @ [CHR ''>''] @ c" by blast
      then have "x # t = (x # a) @ [CHR ''<''] @ b @ [CHR ''>''] @ c" by simp
      then show ?thesis by blast
    qed
  next
    assume "\<exists>a b c. x # t = a @ [CHR ''<''] @ b @ [CHR ''>''] @ c"
    then obtain a b c where e: "x # t = a @ [CHR ''<''] @ b @ [CHR ''>''] @ c" by blast
    show "has_tag_span (x # t)"
    proof (cases a)
      case Nil
      with e show ?thesis by auto
    next
      case (Cons y a')
      with e have "t = a' @ [CHR ''<''] @ b @ [CHR ''>''] @ c" by simp
      with Cons.IH show ?thesis by auto
    qed
  qed
qed

lemma replace_tags_no_lt: "CHR ''<'' \<notin> set (replace_tags inside s)"
  by (induction inside s rule: replace_tags.induct) auto

lemma set_trim: "set (trim s) \<subseteq> set s"
proof -
  have "set (trim s) \<subseteq> set (dropWhile is_ws s)"
    unfolding trim_def using set_dropWhileD by fastforce
  also have "\<dots> \<subseteq> set s" using set_dropWhileD by fastforce
  finally show ?thesis .
qed

text \<open>Trimming keeps a prefix that neither starts nor ends with white space.\<close>

lemma trim_keeps_prefix:
  assumes "startsWith s p" and "p \<noteq> []" and "\<not> is_ws (hd p)" and "\<not> is_ws (last p)"
  shows "startsWith (trim s) p"
proof -
  from assms(1) obtain r where s: "s = p @ r" by (auto simp: startsWith_iff)
  from assms(2,3) s have d: "dropWhile is_ws s = s" by (cases p) auto
  have l: "dropWhile is_ws (rev p) = rev p"
    using assms(2,4) by (cases "rev p") (auto simp: last_rev [symmetric] simp del: last_rev)
  have "\<exists>x. dropWhile is_ws (rev r @ rev p) = x @ rev p"
  proof (cases "\<forall>c \<in> set (rev r). is_ws c")
    case True
    then have "dropWhile is_ws (rev r @ rev p) = dropWhile is_ws (rev p)"
      by (simp add: dropWhile_append)
    with l show ?thesis by simp
  next
    case False
    then have "dropWhile is_ws (rev r @ rev p) = dropWhile is_ws (rev r) @ rev p"
      by (auto simp: dropWhile_append)
    then show ?thesis by blast
  qed
  then obtain x where "dropWhile is_ws (rev r @ rev p) = x @ rev p" by blast
  moreover have "trim s = rev (dropWhile is_ws (rev r @ rev p))"
    unfolding trim_def d by (simp add: s)
  ultimately have "trim s = p @ rev x" by simp
  then show ?thesis by (simp add: startsWith_iff)
qed

lemma xml_decl_trim: "startsWith s ''<?xml'' \<Longrightarrow> startsWith (trim s) ''<?xml''"
  by (rule trim_keeps_prefix) (simp_all add: is_ws_def)

text \<open>The equations that evaluate the model on a concrete input.\<close>

lemmas eval_simps =
  blackList_def dec_int_def dec_nat.simps digit_def quote_def escape_char_def
  trim_def is_ws_def or_js_def

section \<open>The result serializer on strings and on falsy values\<close>

text \<open>
  Claim C4. For every string that begins with the XML declaration \<^verbatim>\<open><?xml\<close>, the serializer
  returns the text obtained by trimming the string, deleting every match of the tag
  pattern and trimming again; that text contains no \<^verbatim>\<open><\<close> at all, hence no \<^verbatim>\<open><...>\<close> span.
\<close>

theorem xml_input_has_no_tags:
  assumes "startsWith s ''<?xml''"
  shows "\<exists>t. serializeResult (JStr s) = text_result t
           \<and> t = trim (replace_tags False (trim s))
           \<and> CHR ''<'' \<notin> set t \<and> \<not> has_tag_span t"
proof -
  let ?t = "trim (replace_tags False (trim s))"
  from assms have ne: "s \<noteq> []" by auto
  have "serializeResult (JStr s) = text_result ?t"
    using ne xml_decl_trim [OF assms]
    by (simp add: serializeResult_def serializeResult_try_def Let_def)
  moreover have lt: "CHR ''<'' \<notin> set ?t"
    using set_trim [of "replace_tags False (trim s)"] replace_tags_no_lt by blast
  moreover from lt have "\<not> has_tag_span ?t" using has_tag_span_lt by blast
  ultimately show ?thesis by blast
qed

theorem xml_input_has_no_tags_witness:
  "startsWith ''<?xml version=1?><a>hello <b>w</b> x > y < z'' ''<?xml''
   \<and> serializeResult (JStr ''<?xml version=1?><a>hello <b>w</b> x > y < z'')
       = text_result ''hello w x > y''"
proof -
  have h: "startsWith ''<?xml version=1?><a>hello <b>w</b> x > y < z'' ''<?xml''" by simp
  have "trim (replace_tags False (trim ''<?xml version=1?><a>hello <b>w</b> x > y < z''))
        = ''hello w x > y''"
    by (simp add: trim_def is_ws_def)
  with xml_input_has_no_tags [OF h] h show ?thesis by simp
qed

text \<open>
  Claim C9. The serializer treats every falsy input as absent data: it returns the text
  \<^verbatim>\<open>No data returned from SAP\<close>. The empty string is falsy, so an empty source file gives
  that text and not an empty text block; the text of this branch is not empty.
\<close>

theorem falsy_is_no_data:
  "(\<not> truthy result \<longrightarrow> serializeResult result = text_result ''No data returned from SAP'')
   \<and> serializeResult (JStr []) = text_result ''No data returned from SAP''
   \<and> map text' (content (serializeResult (JStr []))) = [''No data returned from SAP'']
   \<and> ''No data returned from SAP'' \<noteq> []"
  by (simp add: serializeResult_def serializeResult_try_def text_result_def)

theorem falsy_is_no_data_witness:
  "\<not> truthy (JStr []) \<and> \<not> truthy (JNum (Fin 0)) \<and> \<not> truthy JNull
   \<and> serializeResult (JNum (Fin 0)) = text_result ''No data returned from SAP''
   \<and> serializeResult (JStr []) = text_result ''No data returned from SAP''"
  using falsy_is_no_data [of "JNum (Fin 0)"] falsy_is_no_data [of "JStr []"] by simp

section \<open>The source URL\<close>

text \<open>
  Claim C10. The construction of the source URL is idempotent: for every object URL the
  constructed URL contains \<^verbatim>\<open>/source/main\<close>, and constructing again from the result gives
  the same URL. The same holds behind the guard of ObjectHandler.ts, which lets every
  non-empty URL through.
\<close>

theorem sourceUrl_idempotent:
  "includes_js (sourceUrl objectUrl) ''/source/main''
   \<and> sourceUrl (sourceUrl objectUrl) = sourceUrl objectUrl
   \<and> (objectUrl \<noteq> [] \<longrightarrow>
        (\<exists>u. sourceUrl_guarded objectUrl = Some u \<and> sourceUrl_guarded u = Some u
              \<and> includes_js u ''/source/main''))"
proof -
  have inc: "includes_js (sourceUrl objectUrl) ''/source/main''"
    unfolding sourceUrl_def by (simp add: includes_js_append)
  then have idem: "sourceUrl (sourceUrl objectUrl) = sourceUrl objectUrl"
    by (simp add: sourceUrl_def)
  have ne: "objectUrl \<noteq> [] \<Longrightarrow> sourceUrl objectUrl \<noteq> []"
    by (simp add: sourceUrl_def)
  show ?thesis
    using inc idem ne by (simp add: sourceUrl_guarded_def)
qed

theorem sourceUrl_idempotent_witness:
  "sourceUrl ''/sap/bc/adt/oo/classes/zcl_foo'' = ''/sap/bc/adt/oo/classes/zcl_foo/source/main''
   \<and> sourceUrl ''/sap/bc/adt/oo/classes/zcl_foo/source/main''
       = ''/sap/bc/adt/oo/classes/zcl_foo/source/main''
   \<and> sourceUrl_guarded ''/sap/bc/adt/oo/classes/zcl_foo/source/main''
       = Some ''/sap/bc/adt/oo/classes/zcl_foo/source/main''"
proof -
  have a: "sourceUrl ''/sap/bc/adt/oo/classes/zcl_foo''
           = ''/sap/bc/adt/oo/classes/zcl_foo/source/main''"
    by (simp add: sourceUrl_def)
  from sourceUrl_idempotent [of "''/sap/bc/adt/oo/classes/zcl_foo''"] a
  show ?thesis by (auto simp: sourceUrl_guarded_def)
qed

section \<open>The redaction\<close>

lemma digit_decimal: "d < 10 \<Longrightarrow> digit d \<in> set ''0123456789''"
proof -
  assume "d < 10"
  then have "d \<in> {0, 1, 2, 3, 4, 5, 6, 7, 8, 9}" by auto
  then show ?thesis by (auto simp: digit_def)
qed

lemma dec_nat_digits: "dec_nat n \<noteq> [] \<and> set (dec_nat n) \<subseteq> set ''0123456789''"
proof (induction n rule: dec_nat.induct)
  case (1 n)
  show ?case
  proof (cases "n < 10")
    case True
    then show ?thesis using digit_decimal [of n] by (simp add: dec_nat.simps [of n])
  next
    case False
    with 1 have "dec_nat (n div 10) \<noteq> [] \<and> set (dec_nat (n div 10)) \<subseteq> set ''0123456789''"
      by simp
    moreover have "digit (n mod 10) \<in> set ''0123456789''"
      by (rule digit_decimal) simp
    ultimately show ?thesis using False by (simp add: dec_nat.simps [of n])
  qed
qed

lemma blackList_hd: "w \<in> set blackList \<Longrightarrow> w \<noteq> [] \<and> hd w \<notin> set ''0123456789''"
  by (auto simp: blackList_def)

lemma dec_nat_not_blocked: "dec_nat n \<notin> set blackList"
proof
  assume "dec_nat n \<in> set blackList"
  then have "hd (dec_nat n) \<notin> set ''0123456789''" by (rule blackList_hd [THEN conjunct2])
  moreover have "hd (dec_nat n) \<in> set (dec_nat n)" using dec_nat_digits [of n] by simp
  ultimately show False using dec_nat_digits [of n] by blast
qed

lemma empty_not_blocked: "[] \<notin> set blackList"
  by (simp add: blackList_def)

lemma ser_blocked: "key \<in> set blackList \<Longrightarrow> ser key v = Inr None"
  by (simp add: ser.simps [of key v] replacer_def)

lemma ser_unblocked:
  assumes "key \<notin> set blackList"
  shows "ser key JUndefined = Inr None"
    and "ser key JNull = Inr (Some PNull)"
    and "ser key (JBool b) = Inr (Some (PBool b))"
    and "ser key (JNum n) = Inr (Some (case n of Fin i \<Rightarrow> PNum i | _ \<Rightarrow> PNull))"
    and "ser key (JBigInt i) = Inr (Some (PStr (dec_int i)))"
    and "ser key (JStr s) = Inr (Some (PStr s))"
    and "ser key (JArr xs) =
           (case ser_arr 0 xs of Inl e \<Rightarrow> Inl e | Inr ys \<Rightarrow> Inr (Some (PArr ys)))"
    and "ser key (JObj kvs) =
           (case ser_obj kvs of Inl e \<Rightarrow> Inl e | Inr ps \<Rightarrow> Inr (Some (PObj ps)))"
  using assms by (simp_all add: ser.simps [of key] replacer_def)

lemma ser_Some_key: "ser key v = Inr (Some c) \<Longrightarrow> key \<notin> set blackList"
  using ser_blocked [of key v] by auto

lemma ser_total:
  "\<exists>r. ser key v = Inr r"
  "\<exists>ys. ser_arr i xs = Inr ys"
  "\<exists>ps. ser_obj kvs = Inr ps"
proof (induction key v and i xs and kvs rule: ser_ser_arr_ser_obj.induct)
  case (1 key v)
  show ?case
  proof (cases "key \<in> set blackList")
    case True
    then show ?thesis by (simp add: ser_blocked)
  next
    case False
    then have r: "replacer key w = (case w of JBigInt i \<Rightarrow> JStr (dec_int i) | _ \<Rightarrow> w)" for w
      by (simp add: replacer_def)
    show ?thesis
    proof (cases v)
      case (JArr xs)
      with 1(1) [of xs] r [of v] show ?thesis by (auto simp: ser_unblocked [OF False])
    next
      case (JObj kvs)
      with 1(2) [of kvs] r [of v] show ?thesis by (auto simp: ser_unblocked [OF False])
    qed (simp_all add: ser_unblocked [OF False])
  qed
next
  case (2 i)
  show ?case by simp
next
  case (3 i x xs)
  then show ?case by (auto split: sum.splits)
next
  case 4
  show ?case by simp
next
  case (5 p kvs)
  then show ?case by (auto split: sum.splits)
qed


lemma ser_cases:
  assumes "ser key v = Inr (Some c)"
  obtains "v = JNull" "c = PNull"
    | b where "v = JBool b" "c = PBool b"
    | i where "v = JNum (Fin i)" "c = PNum i"
    | n where "v = JNum n" "case n of Fin i \<Rightarrow> False | _ \<Rightarrow> True" "c = PNull"
    | i where "v = JBigInt i" "c = PStr (dec_int i)"
    | s where "v = JStr s" "c = PStr s"
    | xs ys where "v = JArr xs" "ser_arr 0 xs = Inr ys" "c = PArr ys"
    | kvs ps where "v = JObj kvs" "ser_obj kvs = Inr ps" "c = PObj ps"
proof -
  from assms have k: "key \<notin> set blackList" by (rule ser_Some_key)
  show ?thesis
  proof (cases v)
    case (JNum n)
    with assms that show ?thesis by (cases n) (auto simp: ser_unblocked [OF k])
  qed (use assms that in \<open>auto simp: ser_unblocked [OF k] split: sum.splits\<close>)
qed

lemma ser_no_blocked:
  "ser key v = Inr (Some c) \<Longrightarrow> set (field_names c) \<inter> set blackList = {}"
  "ser_arr i xs = Inr ys \<Longrightarrow> set (field_names_list ys) \<inter> set blackList = {}"
  "ser_obj kvs = Inr ps \<Longrightarrow> set (field_names_members ps) \<inter> set blackList = {}"
proof (induction key v and i xs and kvs arbitrary: c and ys and ps
    rule: ser_ser_arr_ser_obj.induct)
  case (1 key v)
  from "1.prems" have k: "key \<notin> set blackList" by (rule ser_Some_key)
  then have r: "replacer key w = (case w of JBigInt i \<Rightarrow> JStr (dec_int i) | _ \<Rightarrow> w)" for w
    by (simp add: replacer_def)
  from "1.prems" show ?case
  proof (cases rule: ser_cases)
    case (7 xs ys)
    with "1.IH"(1) [of xs ys] r [of v] show ?thesis by simp
  next
    case (8 kvs ps)
    with "1.IH"(2) [of kvs ps] r [of v] show ?thesis by simp
  qed simp_all
next
  case (2 i)
  then show ?case by auto
next
  case (3 i x xs)
  from "3.prems" obtain r zs where r: "ser (dec_nat i) x = Inr r"
    and zs: "ser_arr (Suc i) xs = Inr zs"
    and ys: "ys = (case r of None \<Rightarrow> PNull | Some y \<Rightarrow> y) # zs"
    by (auto split: sum.splits)
  have "set (field_names (case r of None \<Rightarrow> PNull | Some y \<Rightarrow> y)) \<inter> set blackList = {}"
    using "3.IH"(1) r by (cases r) auto
  moreover have "set (field_names_list zs) \<inter> set blackList = {}"
    using "3.IH"(2) [OF r zs] .
  ultimately show ?case using ys by auto
next
  case 4
  then show ?case by auto
next
  case (5 p kvs)
  from "5.prems" obtain r qs where r: "ser (fst p) (snd p) = Inr r"
    and qs: "ser_obj kvs = Inr qs"
    and ps: "ps = (case r of None \<Rightarrow> [] | Some y \<Rightarrow> [(fst p, y)]) @ qs"
    by (auto split: sum.splits)
  have q: "set (field_names_members qs) \<inter> set blackList = {}"
    using "5.IH"(2) [OF r qs] .
  show ?case
  proof (cases r)
    case None
    with ps q show ?thesis by simp
  next
    case (Some y)
    with r have "fst p \<notin> set blackList" by (auto dest: ser_Some_key)
    moreover have "set (field_names y) \<inter> set blackList = {}"
      using "5.IH"(1) r Some by simp
    ultimately show ?thesis using ps q Some by auto
  qed
qed

lemma ser_arr_length: "ser_arr i xs = Inr ys \<Longrightarrow> length ys = length xs"
  by (induction xs arbitrary: i ys) (auto split: sum.splits)

lemma ser_fixpoint:
  "key \<notin> set blackList \<Longrightarrow> set (field_names c) \<inter> set blackList = {}
     \<Longrightarrow> ser key (of_json c) = Inr (Some c)"
  "set (field_names_list ys) \<inter> set blackList = {}
     \<Longrightarrow> ser_arr i (map of_json ys) = Inr ys"
  "set (field_names_members ps) \<inter> set blackList = {}
     \<Longrightarrow> ser_obj (map (\<lambda>p. (fst p, of_json (snd p))) ps) = Inr ps"
proof (induction c and ys and ps arbitrary: key and i and
    rule: field_names_field_names_list_field_names_members.induct)
  case (8 x xs)
  have "ser (dec_nat i) (of_json x) = Inr (Some x)"
    using 8 dec_nat_not_blocked [of i] by auto
  moreover have "ser_arr (Suc i) (map of_json xs) = Inr xs"
    using 8 by auto
  ultimately show ?case by simp
next
  case (10 p kvs)
  have "ser (fst p) (of_json (snd p)) = Inr (Some (snd p))"
    using 10 by auto
  moreover have "ser_obj (map (\<lambda>p. (fst p, of_json (snd p))) kvs) = Inr kvs"
    using 10 by auto
  ultimately show ?case by simp
qed (simp_all add: ser_unblocked)

lemma clean_container:
  assumes "result = JObj kvs \<or> result = JArr xs"
  shows "\<exists>c. clean result = Inr c"
proof -
  from ser_total(1) [of "[]" result] obtain r where r: "ser [] result = Inr r" by blast
  with assms have "r \<noteq> None"
    by (auto simp: ser_unblocked [OF empty_not_blocked] split: sum.splits)
  with r show ?thesis by (auto simp: clean_def)
qed

lemma clean_no_blocked: "clean v = Inr c \<Longrightarrow> set (field_names c) \<inter> set blackList = {}"
  using ser_no_blocked(1) [of "[]" v c]
  by (auto simp: clean_def split: sum.splits option.splits)

lemma clean_fixpoint:
  "set (field_names c) \<inter> set blackList = {} \<Longrightarrow> clean (of_json c) = Inr c"
  using ser_fixpoint(1) [OF empty_not_blocked, of c] by (simp add: clean_def)

lemma serializeResult_container:
  assumes "result = JObj kvs \<or> result = JArr xs" and "clean result = Inr c"
  shows "serializeResult result =
           (case finalOutput c of
              Inl error \<Rightarrow> error_result (''Error: '' @ message error)
            | Inr t \<Rightarrow> text_result t)"
  using assms by (auto simp: serializeResult_def serializeResult_try_def split: sum.splits)

text \<open>
  Claim C1. For every mapping or sequence handed to the serializer, the redaction returns
  a value in which no field, at any nesting depth, has a name of the block-list, and the
  presented text is computed from that value alone.
\<close>

theorem redaction_removes_blocked_fields:
  assumes "result = JObj kvs \<or> result = JArr xs"
  shows "\<exists>c. clean result = Inr c
           \<and> set (field_names c) \<inter> set blackList = {}
           \<and> serializeResult result =
               (case finalOutput c of
                  Inl error \<Rightarrow> error_result (''Error: '' @ message error)
                | Inr t \<Rightarrow> text_result t)"
proof -
  from clean_container [OF assms] obtain c where c: "clean result = Inr c" by blast
  from c have "set (field_names c) \<inter> set blackList = {}" by (rule clean_no_blocked)
  with c serializeResult_container [OF assms c] show ?thesis by blast
qed

theorem redaction_removes_blocked_fields_witness:
  \<open>clean (JObj [(''a'', JNum (Fin 3)), (''links'', JNull),
            (''b'', JArr [JObj [(''etag'', JStr ''x''), (''c'', JBigInt 12)]])])
     = Inr (PObj [(''a'', PNum 3), (''b'', PArr [PObj [(''c'', PStr ''12'')]])])
   \<and> set (field_names (PObj [(''a'', PNum 3), (''b'', PArr [PObj [(''c'', PStr ''12'')]])]))
       \<inter> set blackList = {}
   \<and> serializeResult (JObj [(''a'', JNum (Fin 3)), (''links'', JNull),
            (''b'', JArr [JObj [(''etag'', JStr ''x''), (''c'', JBigInt 12)]])])
     = text_result (''{'' @ [CHR 0x0A] @ ''  "a": 3,'' @ [CHR 0x0A] @ ''  "b": ['' @ [CHR 0x0A]
         @ ''    {'' @ [CHR 0x0A] @ ''      "c": "12"'' @ [CHR 0x0A] @ ''    }'' @ [CHR 0x0A]
         @ ''  ]'' @ [CHR 0x0A] @ ''}'')\<close>
proof -
  let ?r = "JObj [(''a'', JNum (Fin 3)), (''links'', JNull),
            (''b'', JArr [JObj [(''etag'', JStr ''x''), (''c'', JBigInt 12)]])]"
  let ?c = "PObj [(''a'', PNum 3), (''b'', PArr [PObj [(''c'', PStr ''12'')]])]"
  have c: "clean ?r = Inr ?c"
    by (simp add: clean_def ser_unblocked ser_blocked dec_nat_not_blocked eval_simps)
  have f: \<open>finalOutput ?c = Inr (''{'' @ [CHR 0x0A] @ ''  "a": 3,'' @ [CHR 0x0A] @ ''  "b": ['' @ [CHR 0x0A]
         @ ''    {'' @ [CHR 0x0A] @ ''      "c": "12"'' @ [CHR 0x0A] @ ''    }'' @ [CHR 0x0A]
         @ ''  ]'' @ [CHR 0x0A] @ ''}'')\<close>
    by (simp add: finalOutput_def eval_simps)
  from redaction_removes_blocked_fields [of ?r "[(''a'', JNum (Fin 3)), (''links'', JNull),
            (''b'', JArr [JObj [(''etag'', JStr ''x''), (''c'', JBigInt 12)]])]"] c f
  show ?thesis by simp
qed

text \<open>
  Claim C7. The redaction is idempotent: whenever it returns a value, applying it to that
  value returns the same value; and it does return a value on every mapping and sequence.
\<close>

theorem redaction_idempotent:
  "(clean result = Inr c \<longrightarrow> clean (of_json c) = Inr c)
   \<and> (result = JObj kvs \<or> result = JArr xs \<longrightarrow>
        (\<exists>c'. clean result = Inr c' \<and> clean (of_json c') = Inr c'))"
proof -
  have a: "clean (of_json d) = Inr d" if "clean result = Inr d" for d
    using clean_no_blocked [OF that] by (rule clean_fixpoint)
  then show ?thesis using clean_container [of result kvs xs] by blast
qed

theorem redaction_idempotent_witness:
  "clean (JArr [JObj [(''etag'', JStr ''x''), (''c'', JBigInt 12)], JUndefined, JNum NaN])
     = Inr (PArr [PObj [(''c'', PStr ''12'')], PNull, PNull])
   \<and> clean (of_json (PArr [PObj [(''c'', PStr ''12'')], PNull, PNull]))
     = Inr (PArr [PObj [(''c'', PStr ''12'')], PNull, PNull])"
proof -
  have c: "clean (JArr [JObj [(''etag'', JStr ''x''), (''c'', JBigInt 12)], JUndefined, JNum NaN])
     = Inr (PArr [PObj [(''c'', PStr ''12'')], PNull, PNull])"
    by (simp add: clean_def ser_unblocked ser_blocked dec_nat_not_blocked eval_simps)
  with redaction_idempotent [of "JArr [JObj [(''etag'', JStr ''x''), (''c'', JBigInt 12)], JUndefined, JNum NaN]"
      "PArr [PObj [(''c'', PStr ''12'')], PNull, PNull]"]
  show ?thesis by blast
qed

section \<open>Lists of items\<close>

lemma prints_to_string:
  "prints_plainly v \<Longrightarrow> \<exists>s. to_string v = Inr s"
  "prints_plainly_list xs \<Longrightarrow> \<exists>ss. to_strings xs = Inr ss"
  by (induction v and xs rule: to_string_to_strings.induct) auto

lemma ser_obj_keys: "ser_obj kvs = Inr ps \<Longrightarrow> fst ` set ps \<subseteq> fst ` set kvs"
proof (induction kvs arbitrary: ps)
  case Nil
  then show ?case by simp
next
  case (Cons p kvs)
  from Cons.prems obtain r qs where "ser_obj kvs = Inr qs"
    and "ps = (case r of None \<Rightarrow> [] | Some y \<Rightarrow> [(fst p, y)]) @ qs"
    by (auto split: sum.splits)
  with Cons.IH [of qs] show ?case by (cases r) auto
qed

lemma ser_obj_lookup:
  "ser_obj kvs = Inr ps \<Longrightarrow> map_of ps k = Some c
     \<Longrightarrow> \<exists>v. (k, v) \<in> set kvs \<and> ser k v = Inr (Some c)"
proof (induction kvs arbitrary: ps)
  case Nil
  then show ?case by simp
next
  case (Cons p kvs)
  from Cons.prems(1) obtain r qs where r: "ser (fst p) (snd p) = Inr r"
    and qs: "ser_obj kvs = Inr qs"
    and ps: "ps = (case r of None \<Rightarrow> [] | Some y \<Rightarrow> [(fst p, y)]) @ qs"
    by (auto split: sum.splits)
  show ?case
  proof (cases "\<exists>y. r = Some y \<and> fst p = k")
    case True
    then obtain y where y: "r = Some y" "fst p = k" by blast
    with ps Cons.prems(2) have "c = y" by simp
    with r y have "(k, snd p) \<in> set (p # kvs) \<and> ser k (snd p) = Inr (Some c)"
      by (cases p) auto
    then show ?thesis by blast
  next
    case False
    with ps Cons.prems(2) have "map_of qs k = Some c" by (cases r) auto
    with Cons.IH [OF qs] show ?thesis by auto
  qed
qed

lemma ser_prints:
  "prints_plainly v \<Longrightarrow> ser key v = Inr (Some c) \<Longrightarrow> prints_plainly (of_json c)"
  "prints_plainly_list xs \<Longrightarrow> ser_arr i xs = Inr ys \<Longrightarrow> prints_plainly_list (map of_json ys)"
proof (induction v and xs arbitrary: key c and i ys
    rule: prints_plainly_prints_plainly_list.induct)
  case (1 n)
  from "1.prems"(2) show ?case
    by (cases rule: ser_cases) (use "1.prems"(1) in auto)
next
  case (2 xs)
  from "2.prems"(2) show ?case
    by (cases rule: ser_cases) (use "2.prems"(1) "2.IH" in auto)
next
  case (3 kvs)
  from "3.prems"(2) obtain ps where ps: "ser_obj kvs = Inr ps" and c: "c = PObj ps"
    by (cases rule: ser_cases) auto
  from ps have "fst ` set ps \<subseteq> fst ` set kvs" by (rule ser_obj_keys)
  moreover from "3.prems"(1) have "''toString'' \<notin> fst ` set kvs"
    by (simp add: map_of_eq_None_iff)
  ultimately have "''toString'' \<notin> fst ` set ps" by blast
  then have "map_of (map (\<lambda>p. (fst p, of_json (snd p))) ps) ''toString'' = None"
    by (simp add: map_of_eq_None_iff image_image)
  with c show ?case by simp
next
  case (10 x xs)
  from "10.prems"(2) obtain r zs where r: "ser (dec_nat i) x = Inr r"
    and zs: "ser_arr (Suc i) xs = Inr zs"
    and ys: "ys = (case r of None \<Rightarrow> PNull | Some y \<Rightarrow> y) # zs"
    by (auto split: sum.splits)
  have "prints_plainly (of_json (case r of None \<Rightarrow> PNull | Some y \<Rightarrow> y))"
    using "10.IH"(1) "10.prems"(1) r by (cases r) auto
  moreover have "prints_plainly_list (map of_json zs)"
    using "10.IH"(2) "10.prems"(1) zs by simp
  ultimately show ?case using ys by simp
qed (auto elim: ser_cases)


lemma ser_null_iff:
  assumes "ser key v = Inr (Some c)"
  shows "c = PNull \<longleftrightarrow> serializes_as_null v"
  using assms by (cases rule: ser_cases) (auto split: jsnum.splits)

lemma ser_None:
  assumes "key \<notin> set blackList" and "ser key v = Inr None"
  shows "v = JUndefined"
  using assms by (cases v) (auto simp: ser_unblocked split: sum.splits)

text \<open>The cleaned entry of a rendering entry is not null, and its shown fields convert.\<close>

lemma renders_clean:
  assumes "renders x" and "key \<notin> set blackList" and "ser key x = Inr r"
  shows "\<exists>y. r = Some y \<and> y \<noteq> PNull
           \<and> (\<forall>k \<in> set shown_fields. \<exists>s. to_string_opt (get y k) = Inr s)"
proof -
  have nn: "\<not> serializes_as_null x" using assms(1) by (cases x) auto
  from assms(2,3) nn obtain y where y: "r = Some y"
    by (cases r) (auto dest: ser_None)
  with assms(3) have s: "ser key x = Inr (Some y)" by simp
  with nn have "y \<noteq> PNull" by (simp add: ser_null_iff)
  moreover have "\<exists>s. to_string_opt (get y k) = Inr s" if k: "k \<in> set shown_fields" for k
  proof (cases "get y k")
    case None
    then show ?thesis by simp
  next
    case (Some c)
    then obtain ps where ps: "y = PObj ps" and m: "map_of ps k = Some c" by (cases y) auto
    from s ps obtain kvs where x: "x = JObj kvs" and o: "ser_obj kvs = Inr ps"
      by (cases rule: ser_cases) auto
    from ser_obj_lookup [OF o m] obtain v where v: "(k, v) \<in> set kvs"
      and sv: "ser k v = Inr (Some c)" by blast
    from assms(1) x v k have "prints_plainly v" by (auto simp: list_all_iff)
    then have "prints_plainly (of_json c)" using sv by (rule ser_prints(1))
    then show ?thesis using Some by (simp add: prints_to_string(1))
  qed
  ultimately show ?thesis using y by blast
qed

lemma or_js_converts:
  "\<exists>s. to_string_opt a = Inr s \<Longrightarrow> \<exists>s. to_string_opt b = Inr s
     \<Longrightarrow> \<exists>s. to_string_opt (or_js a b) = Inr s"
  by (simp add: or_js_def)

lemma item_line_converts:
  assumes "y \<noteq> PNull" and "\<forall>k \<in> set shown_fields. \<exists>s. to_string_opt (get y k) = Inr s"
  shows "\<exists>n t d.
           to_string_opt (or_js (or_js (get y ''name'') (get y ''ObjectName'')) (Some (PStr [])))
             = Inr n
         \<and> to_string_opt (or_js (or_js (get y ''type'') (get y ''ObjectType'')) (Some (PStr [])))
             = Inr t
         \<and> to_string_opt (or_js (get y ''description'') (Some (PStr []))) = Inr d
         \<and> item_line y = Inr (''- '' @ n @ '' ('' @ t @ '') '' @ d)"
proof -
  have e: "\<exists>s. to_string_opt (Some (PStr [])) = Inr s" by simp
  from assms(2) have f: "\<exists>s. to_string_opt (get y ''name'') = Inr s"
    "\<exists>s. to_string_opt (get y ''ObjectName'') = Inr s"
    "\<exists>s. to_string_opt (get y ''type'') = Inr s"
    "\<exists>s. to_string_opt (get y ''ObjectType'') = Inr s"
    "\<exists>s. to_string_opt (get y ''description'') = Inr s"
    by (simp_all add: shown_fields_def)
  obtain n where n: "to_string_opt
      (or_js (or_js (get y ''name'') (get y ''ObjectName'')) (Some (PStr []))) = Inr n"
    using or_js_converts [OF or_js_converts [OF f(1) f(2)] e] by blast
  obtain t where t: "to_string_opt
      (or_js (or_js (get y ''type'') (get y ''ObjectType'')) (Some (PStr []))) = Inr t"
    using or_js_converts [OF or_js_converts [OF f(3) f(4)] e] by blast
  obtain d where d: "to_string_opt (or_js (get y ''description'') (Some (PStr []))) = Inr d"
    using or_js_converts [OF f(5) e] by blast
  from assms(1) n t d have "item_line y = Inr (''- '' @ n @ '' ('' @ t @ '') '' @ d)"
    by (simp add: item_line_def Let_def)
  with n t d show ?thesis by blast
qed

lemma ser_arr_renders:
  assumes "ser_arr i xs = Inr ys" and "\<forall>x \<in> set (take m xs). renders x"
  shows "\<forall>y \<in> set (take m ys). y \<noteq> PNull
           \<and> (\<forall>k \<in> set shown_fields. \<exists>s. to_string_opt (get y k) = Inr s)"
  using assms
proof (induction xs arbitrary: i ys m)
  case Nil
  then show ?case by simp
next
  case (Cons x xs)
  from Cons.prems(1) obtain r zs where r: "ser (dec_nat i) x = Inr r"
    and zs: "ser_arr (Suc i) xs = Inr zs"
    and ys: "ys = (case r of None \<Rightarrow> PNull | Some y \<Rightarrow> y) # zs"
    by (auto split: sum.splits)
  show ?case
  proof (cases m)
    case 0
    then show ?thesis by simp
  next
    case (Suc m')
    with Cons.prems(2) have x: "renders x" and rest: "\<forall>x \<in> set (take m' xs). renders x"
      by simp_all
    from renders_clean [OF x dec_nat_not_blocked r] obtain y where "r = Some y" "y \<noteq> PNull"
      "\<forall>k \<in> set shown_fields. \<exists>s. to_string_opt (get y k) = Inr s" by blast
    with Cons.IH [OF zs rest] ys Suc show ?thesis by simp
  qed
qed

lemma map_js_all2:
  assumes "\<forall>y \<in> set ys. \<exists>l. f y = Inr l \<and> P y l"
  shows "\<exists>ls. map_js f ys = Inr ls \<and> list_all2 P ys ls"
  using assms
proof (induction ys)
  case Nil
  then show ?case by simp
next
  case (Cons y ys)
  then obtain l ls where "f y = Inr l" "P y l" "map_js f ys = Inr ls" "list_all2 P ys ls"
    by auto
  then have "map_js f (y # ys) = Inr (l # ls) \<and> list_all2 P (y # ys) (l # ls)" by simp
  then show ?case by blast
qed

lemma clean_array:
  "\<exists>items. clean (JArr xs) = Inr (PArr items) \<and> ser_arr 0 xs = Inr items"
  using ser_total(2) [of 0 xs]
  by (auto simp: clean_def ser_unblocked [OF empty_not_blocked])

text \<open>
  Claim C2, amended. For every sequence of more than 50 entries whose first 50 entries
  render (no entry that the redaction writes as null; in a mapping, no name, ObjectName,
  type, ObjectType or description that holds an object with a \<^verbatim>\<open>toString\<close> property of its
  own or a number outside the safe integers), the serializer returns 50 item lines
  \<^verbatim>\<open>- {name} ({type}) {description}\<close> (name or ObjectName, type or ObjectType, the empty
  string for a missing field) joined by line breaks, then an empty line and the summary
  line \<^verbatim>\<open>...and {N - 50} more objects.\<close>; for 64 entries the summary says 14.
\<close>

theorem long_list_is_truncated:
  assumes "50 < length xs" and "\<forall>x \<in> set (take 50 xs). renders x"
  shows "\<exists>items lines. clean (JArr xs) = Inr (PArr items) \<and> length items = length xs
           \<and> length lines = 50
           \<and> list_all2 (\<lambda>item line. \<exists>n t d.
                  to_string_opt
                    (or_js (or_js (get item ''name'') (get item ''ObjectName'')) (Some (PStr [])))
                    = Inr n
                \<and> to_string_opt
                    (or_js (or_js (get item ''type'') (get item ''ObjectType'')) (Some (PStr [])))
                    = Inr t
                \<and> to_string_opt (or_js (get item ''description'') (Some (PStr []))) = Inr d
                \<and> line = ''- '' @ n @ '' ('' @ t @ '') '' @ d)
                (take 50 items) lines
           \<and> serializeResult (JArr xs) =
               text_result
                 (join lines [CHR 0x0A]
                  @ [CHR 0x0A, CHR 0x0A] @ ''...and '' @ dec_nat (length xs - 50)
                  @ '' more objects.'')
           \<and> (length xs = 64 \<longrightarrow>
                (\<exists>body. serializeResult (JArr xs)
                   = text_result (body @ ''...and 14 more objects.'')))"
proof -
  let ?P = "\<lambda>item line. \<exists>n t d.
      to_string_opt (or_js (or_js (get item ''name'') (get item ''ObjectName'')) (Some (PStr [])))
        = Inr n
    \<and> to_string_opt (or_js (or_js (get item ''type'') (get item ''ObjectType'')) (Some (PStr [])))
        = Inr t
    \<and> to_string_opt (or_js (get item ''description'') (Some (PStr []))) = Inr d
    \<and> line = ''- '' @ n @ '' ('' @ t @ '') '' @ d"
  from clean_array [of xs] obtain items
    where c: "clean (JArr xs) = Inr (PArr items)" and a: "ser_arr 0 xs = Inr items" by blast
  from a have len: "length items = length xs" by (rule ser_arr_length)
  have "\<forall>y \<in> set (take 50 items). \<exists>l. item_line y = Inr l \<and> ?P y l"
  proof
    fix y assume "y \<in> set (take 50 items)"
    with ser_arr_renders [OF a assms(2)] have "y \<noteq> PNull"
      and "\<forall>k \<in> set shown_fields. \<exists>s. to_string_opt (get y k) = Inr s" by auto
    from item_line_converts [OF this] show "\<exists>l. item_line y = Inr l \<and> ?P y l" by blast
  qed
  from map_js_all2 [OF this] obtain lines
    where m: "map_js item_line (take 50 items) = Inr lines"
      and l: "list_all2 ?P (take 50 items) lines" by blast
  from l assms(1) len have ll: "length lines = 50" by (auto dest: list_all2_lengthD)
  from assms(1) have "xs \<noteq> []" by auto
  with m assms(1) len have f: "finalOutput (PArr items) =
      Inr (join lines [CHR 0x0A]
           @ [CHR 0x0A, CHR 0x0A] @ ''...and '' @ dec_nat (length xs - 50) @ '' more objects.'')"
    by (simp add: finalOutput_def)
  have s: "serializeResult (JArr xs) =
      text_result (join lines [CHR 0x0A]
           @ [CHR 0x0A, CHR 0x0A] @ ''...and '' @ dec_nat (length xs - 50) @ '' more objects.'')"
    using c f by (simp add: serializeResult_def serializeResult_try_def)
  have "dec_nat 14 = ''14''" by (simp add: eval_simps)
  with s have "length xs = 64 \<longrightarrow>
      serializeResult (JArr xs)
        = text_result ((join lines [CHR 0x0A] @ [CHR 0x0A, CHR 0x0A])
                       @ ''...and 14 more objects.'')"
    by simp
  then have "length xs = 64 \<longrightarrow>
      (\<exists>body. serializeResult (JArr xs) = text_result (body @ ''...and 14 more objects.''))"
    by blast
  with c len ll l s show ?thesis by blast
qed

lemma map_js_first_raise: "xs \<noteq> [] \<Longrightarrow> f (hd xs) = Inl e \<Longrightarrow> map_js f xs = Inl e"
  by (cases xs) auto

lemma ser_arr_replicate:
  assumes "\<And>k. ser (dec_nat k) x = Inr (Some y)"
  shows "ser_arr i (replicate n x) = Inr (replicate n y)"
  by (induction n arbitrary: i) (simp_all add: assms)

lemma clean_replicate:
  assumes "\<And>k. ser (dec_nat k) x = Inr (Some y)"
  shows "clean (JArr (replicate n x)) = Inr (PArr (replicate n y))"
  using ser_arr_replicate [OF assms, of 0 n]
  by (simp add: clean_def ser_unblocked [OF empty_not_blocked])

lemma all2_replicate:
  assumes "list_all2 P (replicate n y) ls" and "\<And>l. P y l \<Longrightarrow> l = z"
  shows "ls = replicate n z"
proof -
  from assms(1) have len: "length ls = n" by (auto dest: list_all2_lengthD)
  have "\<forall>l \<in> set ls. l = z"
  proof
    fix l assume "l \<in> set ls"
    then obtain j where "j < length ls" "ls ! j = l" by (auto simp: in_set_conv_nth)
    with assms(1) len have "P y l" by (auto simp: list_all2_conv_all_nth)
    then show "l = z" by (rule assms(2))
  qed
  then have "replicate (length ls) z = ls" by (rule replicate_length_same)
  with len show ?thesis by simp
qed

theorem long_list_is_truncated_witness:
  "50 < length (replicate 64 (JObj [(''name'', JStr ''N''), (''type'', JStr ''T'')]))
   \<and> serializeResult (JArr (replicate 64 (JObj [(''name'', JStr ''N''), (''type'', JStr ''T'')])))
       = text_result (join (replicate 50 ''- N (T) '') [CHR 0x0A]
                      @ [CHR 0x0A, CHR 0x0A] @ ''...and 14 more objects.'')"
proof -
  let ?x = "JObj [(''name'', JStr ''N''), (''type'', JStr ''T'')]"
  let ?y = "PObj [(''name'', PStr ''N''), (''type'', PStr ''T'')]"
  have h1: "50 < length (replicate 64 ?x)" by simp
  have h2: "\<forall>x \<in> set (take 50 (replicate 64 ?x)). renders x"
    by (simp add: shown_fields_def)
  have nb: "''name'' \<notin> set blackList" "''type'' \<notin> set blackList"
    by (simp_all add: blackList_def)
  have "ser (dec_nat k) ?x = Inr (Some ?y)" for k
    by (simp add: ser_unblocked dec_nat_not_blocked nb)
  then have c: "clean (JArr (replicate 64 ?x)) = Inr (PArr (replicate 64 ?y))"
    by (rule clean_replicate)
  have d: "dec_nat 14 = ''14''" by (simp add: eval_simps)
  from long_list_is_truncated [OF h1 h2] c obtain lines
    where l: "list_all2 (\<lambda>item line. \<exists>n t d.
                  to_string_opt
                    (or_js (or_js (get item ''name'') (get item ''ObjectName'')) (Some (PStr [])))
                    = Inr n
                \<and> to_string_opt
                    (or_js (or_js (get item ''type'') (get item ''ObjectType'')) (Some (PStr [])))
                    = Inr t
                \<and> to_string_opt (or_js (get item ''description'') (Some (PStr []))) = Inr d
                \<and> line = ''- '' @ n @ '' ('' @ t @ '') '' @ d)
                (replicate 50 ?y) lines"
      and s: "serializeResult (JArr (replicate 64 ?x)) =
               text_result
                 (join lines [CHR 0x0A]
                  @ [CHR 0x0A, CHR 0x0A] @ ''...and '' @ dec_nat 14 @ '' more objects.'')"
    by auto
  from l have "lines = replicate 50 ''- N (T) ''"
    by (rule all2_replicate) (auto simp: or_js_def)
  with s d h1 show ?thesis by simp
qed

text \<open>
  A sequence of 51 nulls has more than 50 entries and renders no item line: reading
  \<^verbatim>\<open>item.name\<close> of the first entry raises, and the serializer returns the error text.
\<close>

theorem null_items_counterexample:
  "50 < length (replicate 51 JNull)
   \<and> serializeResult (JArr (replicate 51 JNull))
       = error_result ''Error: Cannot read properties of null (reading 'name')''"
proof -
  have "ser (dec_nat k) JNull = Inr (Some PNull)" for k
    by (simp add: ser_unblocked dec_nat_not_blocked)
  then have c: "clean (JArr (replicate 51 JNull)) = Inr (PArr (replicate 51 PNull))"
    by (rule clean_replicate)
  have "map_js item_line (take 50 (replicate 51 PNull))
      = Inl (TypeError ''Cannot read properties of null (reading 'name')'')"
    by (rule map_js_first_raise) (simp_all add: item_line_def)
  then have "finalOutput (PArr (replicate 51 PNull))
      = Inl (TypeError ''Cannot read properties of null (reading 'name')'')"
    by (simp add: finalOutput_def)
  with c show ?thesis
    by (simp add: serializeResult_def serializeResult_try_def)
qed

text \<open>
  So does a sequence of 51 mappings whose name is an object with a \<^verbatim>\<open>toString\<close> property:
  the template literal cannot convert the name to a string.
\<close>

lemma unprintable_items_raise:
  "serializeResult
     (JArr (replicate 51 (JObj [(''name'', JObj [(''toString'', JNum (Fin 1))])])))
     = error_result ''Error: Cannot convert object to primitive value''"
proof -
  let ?x = "JObj [(''name'', JObj [(''toString'', JNum (Fin 1))])]"
  let ?y = "PObj [(''name'', PObj [(''toString'', PNum 1)])]"
  have nb: "''name'' \<notin> set blackList" "''toString'' \<notin> set blackList"
    by (simp_all add: blackList_def)
  have "ser (dec_nat k) ?x = Inr (Some ?y)" for k
    by (simp add: ser_unblocked dec_nat_not_blocked nb)
  then have c: "clean (JArr (replicate 51 ?x)) = Inr (PArr (replicate 51 ?y))"
    by (rule clean_replicate)
  have "map_js item_line (take 50 (replicate 51 ?y))
      = Inl (TypeError ''Cannot convert object to primitive value'')"
    by (rule map_js_first_raise) (simp_all add: item_line_def or_js_def)
  then have "finalOutput (PArr (replicate 51 ?y))
      = Inl (TypeError ''Cannot convert object to primitive value'')"
    by (simp add: finalOutput_def)
  with c show ?thesis
    by (simp add: serializeResult_def serializeResult_try_def)
qed

section \<open>The error projector\<close>




text \<open>The quoting escapes the backslash, the double quote and the control characters.\<close>

lemma quote_escapes:
  "quote [CHR 0x5C, CHR 0x22, CHR 0x0A, CHR 0x01, CHR 0x1F, CHR ''a'', CHR 0x7F]
     = [CHR 0x22, CHR 0x5C, CHR 0x5C, CHR 0x5C, CHR 0x22, CHR 0x5C, CHR ''n'',
        CHR 0x5C, CHR ''u'', CHR ''0'', CHR ''0'', CHR ''0'', CHR ''1'',
        CHR 0x5C, CHR ''u'', CHR ''0'', CHR ''0'', CHR ''1'', CHR ''f'',
        CHR ''a'', CHR 0x7F, CHR 0x22]"
  by (simp add: quote_def escape_char_def digit_def)














section \<open>The path transformer and the search transformer\<close>

lemma truthy_opt_Some: "truthy_opt a \<Longrightarrow> \<exists>y. a = Some y"
  by (cases a) auto

lemma root_first_truthy:
  "root data =
     (case filter (\<lambda>k. truthy_opt (get data k)) root_candidates of
        [] \<Rightarrow> get data ''table:abapTable''
      | k # ks \<Rightarrow> get data k)"
  by (simp add: root_def root_candidates_def or_js_def)

lemma root_first_present:
  assumes "\<forall>k \<in> set root_candidates. get data k = None \<or> truthy_opt (get data k)"
  shows "root data = first_present data"
proof -
  from assms have "filter (\<lambda>k. get data k \<noteq> None) root_candidates
      = filter (\<lambda>k. truthy_opt (get data k)) root_candidates"
    by (intro filter_cong) (auto simp: truthy_opt_Some)
  moreover have "get data ''table:abapTable'' = None"
    if "filter (\<lambda>k. truthy_opt (get data k)) root_candidates = []"
    using that assms by (auto simp: root_candidates_def split: if_splits)
  ultimately show ?thesis
    by (auto simp: root_first_truthy first_present_def split: list.splits)
qed

lemma path_without_root:
  assumes "data \<noteq> PNull" and "\<forall>k \<in> set root_candidates. get data k = None"
  shows "handleGetObjectPath data = Inr (JObj [(''path'', JStr (''TMP > '' @ ''undefined''))])"
proof -
  from assms(2) have "root data = None"
    by (simp add: root_def root_candidates_def or_js_def)
  with assms(1) show ?thesis
    by (simp add: handleGetObjectPath_def or_js_def)
qed

text \<open>
  Claim C5, amended. The root of the path transformer is the value of the first candidate
  key (class, generic object, program, table) whose value is truthy, and the value of the
  table key when none is. It is the first present candidate whenever every present
  candidate is truthy. When no candidate is present the path transformer does not raise,
  and its path starts with the fallback package name \<^verbatim>\<open>TMP\<close>.
\<close>

theorem root_is_first_truthy:
  "root data =
     (case filter (\<lambda>k. truthy_opt (get data k)) root_candidates of
        [] \<Rightarrow> get data ''table:abapTable''
      | k # ks \<Rightarrow> get data k)
   \<and> ((\<forall>k \<in> set root_candidates. get data k = None \<or> truthy_opt (get data k)) \<longrightarrow>
        root data = first_present data)
   \<and> (data \<noteq> PNull \<and> (\<forall>k \<in> set root_candidates. get data k = None) \<longrightarrow>
        (\<exists>name. handleGetObjectPath data = Inr (JObj [(''path'', JStr (''TMP > '' @ name))])))"
  using root_first_truthy [of data] root_first_present [of data] path_without_root [of data]
  by blast

theorem root_is_first_truthy_witness:
  "root (PObj [(''table:abapTable'',
          PObj [(''_attributes'', PObj [(''adtcore:name'', PStr ''ZTAB'')])])])
     = Some (PObj [(''_attributes'', PObj [(''adtcore:name'', PStr ''ZTAB'')])])
   \<and> first_present (PObj [(''table:abapTable'',
          PObj [(''_attributes'', PObj [(''adtcore:name'', PStr ''ZTAB'')])])])
     = Some (PObj [(''_attributes'', PObj [(''adtcore:name'', PStr ''ZTAB'')])])
   \<and> handleGetObjectPath (PObj [(''table:abapTable'',
          PObj [(''_attributes'', PObj [(''adtcore:name'', PStr ''ZTAB'')])])])
     = Inr (JObj [(''path'', JStr ''TMP > ZTAB'')])
   \<and> root (PObj [(''other:tag'', PObj [])]) = None"
proof -
  let ?d = "PObj [(''table:abapTable'',
          PObj [(''_attributes'', PObj [(''adtcore:name'', PStr ''ZTAB'')])])]"
  have h: "\<forall>k \<in> set root_candidates. get ?d k = None \<or> truthy_opt (get ?d k)"
    by (simp add: root_candidates_def)
  have f: "first_present ?d = Some (PObj [(''_attributes'', PObj [(''adtcore:name'', PStr ''ZTAB'')])])"
    by (simp add: first_present_def root_candidates_def)
  have p: "handleGetObjectPath ?d = Inr (JObj [(''path'', JStr ''TMP > ZTAB'')])"
    by (simp add: handleGetObjectPath_def root_def or_js_def)
  have n: "root (PObj [(''other:tag'', PObj [])]) = None"
    by (simp add: root_def or_js_def)
  from root_is_first_truthy [of ?d] h have "root ?d = first_present ?d" by blast
  with f p n show ?thesis by simp
qed

text \<open>
  A response whose class key is present with the empty string as its value: the first
  present candidate is that empty string, the root is the value of the generic object key.
\<close>

theorem falsy_root_counterexample:
  "root (PObj [(''class:abapClass'', PStr []),
               (''adtcore:object'', PObj [(''_attributes'', PObj [(''adtcore:name'', PStr ''ZOBJ'')])])])
     = Some (PObj [(''_attributes'', PObj [(''adtcore:name'', PStr ''ZOBJ'')])])
   \<and> first_present (PObj [(''class:abapClass'', PStr []),
               (''adtcore:object'', PObj [(''_attributes'', PObj [(''adtcore:name'', PStr ''ZOBJ'')])])])
     = Some (PStr [])"
  by (simp add: root_def or_js_def first_present_def root_candidates_def)

text \<open>
  Claim C6. A resolved root without the \<^verbatim>\<open>adtcore:name\<close> attribute: the path transformer
  returns the path \<^verbatim>\<open>TMP > undefined\<close>, and the serializer presents it with the literal
  \<^verbatim>\<open>undefined\<close> in the text.
\<close>

theorem missing_name_renders_undefined:
  \<open>handleGetObjectPath (PObj [(''table:abapTable'', PObj [(''_attributes'', PObj [])])])
     = Inr (JObj [(''path'', JStr ''TMP > undefined'')])
   \<and> serializeResult (JObj [(''path'', JStr ''TMP > undefined'')])
     = text_result (''{'' @ [CHR 0x0A] @ ''  "path": "TMP > undefined"'' @ [CHR 0x0A] @ ''}'')
   \<and> includes_js ''TMP > undefined'' ''undefined''\<close>
proof -
  have nb: "''path'' \<notin> set blackList" by (simp add: blackList_def)
  have "clean (JObj [(''path'', JStr ''TMP > undefined'')])
      = Inr (PObj [(''path'', PStr ''TMP > undefined'')])"
    by (simp add: clean_def ser_unblocked empty_not_blocked nb)
  then have \<open>serializeResult (JObj [(''path'', JStr ''TMP > undefined'')])
     = text_result (''{'' @ [CHR 0x0A] @ ''  "path": "TMP > undefined"'' @ [CHR 0x0A] @ ''}'')\<close>
    by (simp add: serializeResult_def serializeResult_try_def finalOutput_def eval_simps)
  then show ?thesis
    by (simp add: handleGetObjectPath_def root_def or_js_def)
qed

text \<open>The search transformer does the same for a hit without name, type and URI.\<close>

lemma search_without_names:
  "handleGetObjects (PArr [PObj [(''adtcore:description'', PStr ''d'')]])
     = Inr (''- undefined (undefined) d'' @ [CHR 0x0A] @ ''  URL: undefined'')"
  by (simp add: handleGetObjects_def search_line_def or_js_def)

text \<open>
  Claim C8, amended. For the single hit ZCL_FOO the search transformer returns the line
  \<^verbatim>\<open>- ZCL_FOO (CLAS/OC) \<close> (with the space that precedes the empty description), a line
  break, and the line \<^verbatim>\<open>  URL: /sap/bc/adt/oo/classes/zcl_foo\<close>; the serializer presents
  this text unchanged.
\<close>

theorem search_hit_text:
  "handleGetObjects (PArr [PObj [(''adtcore:name'', PStr ''ZCL_FOO''),
       (''adtcore:type'', PStr ''CLAS/OC''), (''adtcore:uri'', PStr ''/sap/bc/adt/oo/classes/zcl_foo'')]])
     = Inr (''- ZCL_FOO (CLAS/OC) '' @ [CHR 0x0A] @ ''  URL: /sap/bc/adt/oo/classes/zcl_foo'')
   \<and> serializeResult
        (JStr (''- ZCL_FOO (CLAS/OC) '' @ [CHR 0x0A] @ ''  URL: /sap/bc/adt/oo/classes/zcl_foo''))
     = text_result (''- ZCL_FOO (CLAS/OC) '' @ [CHR 0x0A] @ ''  URL: /sap/bc/adt/oo/classes/zcl_foo'')"
  by (simp add: handleGetObjects_def search_line_def or_js_def
        serializeResult_def serializeResult_try_def trim_def is_ws_def)

theorem search_hit_text_witness:
  "serializeResult
        (JStr (''- ZCL_FOO (CLAS/OC) '' @ [CHR 0x0A] @ ''  URL: /sap/bc/adt/oo/classes/zcl_foo''))
     = text_result (''- ZCL_FOO (CLAS/OC) '' @ [CHR 0x0A] @ ''  URL: /sap/bc/adt/oo/classes/zcl_foo'')"
  using search_hit_text by (rule conjunct2)

text \<open>
  The text of the hit does not contain the name and the URL on one line, as
  \<^verbatim>\<open>- ZCL_FOO (CLAS/OC)  URL: /sap/bc/adt/oo/classes/zcl_foo\<close>.
\<close>

theorem search_hit_counterexample:
  "handleGetObjects (PArr [PObj [(''adtcore:name'', PStr ''ZCL_FOO''),
       (''adtcore:type'', PStr ''CLAS/OC''), (''adtcore:uri'', PStr ''/sap/bc/adt/oo/classes/zcl_foo'')]])
     = Inr (''- ZCL_FOO (CLAS/OC) '' @ [CHR 0x0A] @ ''  URL: /sap/bc/adt/oo/classes/zcl_foo'')
   \<and> \<not> includes_js (''- ZCL_FOO (CLAS/OC) '' @ [CHR 0x0A] @ ''  URL: /sap/bc/adt/oo/classes/zcl_foo'')
          ''- ZCL_FOO (CLAS/OC)  URL: /sap/bc/adt/oo/classes/zcl_foo''"
  by (simp add: handleGetObjects_def search_line_def or_js_def)

end
